theory Spec2Isabelle
  imports Main "HOL-Library.Word"
begin

section \<open>The containerd-metrics correlator (dev/containerd-metrics/main.go)\<close>

subsection \<open>Data model\<close>

text \<open>
  \<^verbatim>\<open>time.Time\<close> is a clock reading in nanoseconds; \<^verbatim>\<open>time.Duration\<close> is Go's
  \<^verbatim>\<open>int64\<close> count of nanoseconds, so \<open>+\<close> on it wraps around.
\<close>

type_synonym time = int
type_synonym duration = "64 word"

text \<open>The structs \<^verbatim>\<open>Prep\<close>, \<^verbatim>\<open>Commit\<close>, \<^verbatim>\<open>Layer\<close> and \<^verbatim>\<open>Image\<close>; every field is
  prefixed with the name of its struct, since several structs share field names.\<close>

record Prep =
  Prep_T :: time
  Prep_Parent :: string
  Prep_Name :: string

record Commit =
  Commit_Dur :: duration
  Commit_Parent :: string
  Commit_Name :: string
  Commit_Key :: string

record Layer =
  Layer_ID :: string
  Layer_Prep :: duration

record Image =
  Image_Name :: string
  Image_TotalPrep :: duration
  Image_Layer :: "Layer list"

text \<open>
  The three package-level maps. The Go maps hold pointers; a \<^verbatim>\<open>Prep\<close> or \<^verbatim>\<open>Commit\<close> is
  never written through its pointer after it has been built, so the maps hold the values.
\<close>

record store =
  prepByKey :: "string \<rightharpoonup> Prep"
  commitByKey :: "string \<rightharpoonup> Commit"
  commitByName :: "string \<rightharpoonup> Commit"

definition empty_store :: store where
  "empty_store = \<lparr>prepByKey = Map.empty, commitByKey = Map.empty, commitByName = Map.empty\<rparr>"

text \<open>
  What the event loop receives: an envelope whose payload does not unmarshal, one of the
  five event types of the type switch, or any other event type.
\<close>

datatype event =
    Undecodable
  | SnapshotPrepare string string
  | SnapshotCommit string string
  | SnapshotRemove string
  | ImageDelete string
  | ContainerCreate string string
  | OtherEvent

text \<open>The log lines of the program, with the fields they carry, and their levels.\<close>

datatype level = Debug | Info | Warn

datatype logentry =
    LogSkippingEvent
  | LogPrep Prep
  | LogCommitWithoutPrep string string
  | LogCommit Commit
  | LogSnapshotRemove string
  | LogImageDelete string
  | LogImageWithoutPrep string string
  | LogImagePulled string Image string string

fun level_of :: "logentry \<Rightarrow> level" where
  "level_of LogSkippingEvent = Warn"
| "level_of (LogPrep p) = Debug"
| "level_of (LogCommitWithoutPrep key name) = Debug"
| "level_of (LogCommit c) = Debug"
| "level_of (LogSnapshotRemove obj) = Info"
| "level_of (LogImageDelete obj) = Info"
| "level_of (LogImageWithoutPrep imageRef ident) = Debug"
| "level_of (LogImagePulled instanceID img ident initialPrep) = Info"

subsection \<open>Library functions the program calls\<close>

text \<open>
  \<^verbatim>\<open>time.Since(t)\<close>, evaluated when the clock reads \<open>now\<close>: the difference \<open>now - t\<close>,
  which the Go library saturates at the ends of the \<^verbatim>\<open>int64\<close> range.
\<close>

definition Since :: "time \<Rightarrow> time \<Rightarrow> duration" where
  "Since t now =
     (if now - t > 2 ^ 63 - 1 then word_of_int (2 ^ 63 - 1)
      else if now - t < - (2 ^ 63) then word_of_int (- (2 ^ 63))
      else word_of_int (now - t))"

text \<open>\<^verbatim>\<open>strings.Split(s, sep)\<close> for a separator of one character: the pieces of \<open>s\<close>
  between the separators, so at least one piece, and \<open>[""]\<close> for the empty string.\<close>

fun Split :: "string \<Rightarrow> char \<Rightarrow> string list" where
  "Split [] sep = [[]]"
| "Split (x # xs) sep =
     (if x = sep then [] # Split xs sep
      else (case Split xs sep of
              [] \<Rightarrow> [[x]]
            | w # ws \<Rightarrow> (x # w) # ws))"

subsection \<open>pushContainerMetrics\<close>

text \<open>
  The chain-walking loop
  \<^verbatim>\<open>c, ok = commitByName[initialPrep.Parent]; for ok { ...; c, ok = commitByName[c.Parent] }\<close>.
  The pair \<^verbatim>\<open>(c, ok)\<close> is the option \<open>c\<close>. The loop has no bound and no visited set, so it
  is a partial function: \<open>None\<close> is the run that never leaves the loop (it appends a layer
  in every iteration, until the process runs out of memory).
\<close>

partial_function (option) walk :: "(string \<rightharpoonup> Commit) \<Rightarrow> Commit option \<Rightarrow> Image \<Rightarrow> Image option" where
  "walk cbn c img =
     (case c of
        None \<Rightarrow> Some img
      | Some co \<Rightarrow>
          walk cbn (cbn (Commit_Parent co))
            (img\<lparr>Image_Layer := Image_Layer img @ [\<lparr>Layer_ID = Commit_Name co, Layer_Prep = Commit_Dur co\<rparr>],
                 Image_TotalPrep := Image_TotalPrep img + Commit_Dur co\<rparr>))"

declare walk.simps [code]

text \<open>
  The in-place reversal
  \<^verbatim>\<open>for i, j := 0, len(img.Layer)-1; i < j; i, j = i+1, j-1 { swap }\<close>
  with Go's \<^verbatim>\<open>int\<close> indices. An index outside the slice panics: \<open>None\<close>.
\<close>

function reverse_loop :: "Layer list \<Rightarrow> int \<Rightarrow> int \<Rightarrow> Layer list option" where
  "reverse_loop xs i j =
     (if i < j then
        (if 0 \<le> i \<and> j < int (length xs)
         then reverse_loop (xs[nat i := xs ! nat j, nat j := xs ! nat i]) (i + 1) (j - 1)
         else None)
      else Some xs)"
  by pat_completeness auto
termination
  by (relation "measure (\<lambda>(xs, i, j). nat (j - i))") auto

declare reverse_loop.simps [simp del]

text \<open>
  The label taken from the image reference at the end of \<^verbatim>\<open>pushContainerMetrics\<close>:
  \<^verbatim>\<open>segs := strings.Split(img.Name, "/"); if len(segs) == 3 { instanceID = segs[2] }\<close>.
\<close>

definition instanceID_of :: "string \<Rightarrow> string" where
  "instanceID_of imageName =
     (let segs = Split imageName CHR ''/'' in if length segs = 3 then segs ! 2 else [])"

text \<open>
  \<^verbatim>\<open>pushContainerMetrics(id, image)\<close> reads the maps and writes one log line; \<open>ident\<close>
  and \<open>imageRef\<close> are its parameters \<^verbatim>\<open>id\<close> and \<^verbatim>\<open>image\<close>. The result is \<open>None\<close> when
  the call does not return.
\<close>

definition pushContainerMetrics :: "store \<Rightarrow> string \<Rightarrow> string \<Rightarrow> logentry option" where
  "pushContainerMetrics s ident imageRef =
     (let img = \<lparr>Image_Name = imageRef, Image_TotalPrep = 0, Image_Layer = []\<rparr> in
      case prepByKey s ident of
        None \<Rightarrow> Some (LogImageWithoutPrep imageRef ident)
      | Some initialPrep \<Rightarrow>
          (case walk (commitByName s) (commitByName s (Prep_Parent initialPrep)) img of
             None \<Rightarrow> None
           | Some img1 \<Rightarrow>
               (case reverse_loop (Image_Layer img1) 0 (int (length (Image_Layer img1)) - 1) of
                  None \<Rightarrow> None
                | Some ls \<Rightarrow>
                    (let img2 = img1\<lparr>Image_Layer := ls\<rparr>;
                         instanceID = instanceID_of (Image_Name img2)
                     in Some (LogImagePulled instanceID img2 ident (Prep_Parent initialPrep))))))"

subsection \<open>The event loop of serveContainerdMetrics\<close>

text \<open>
  One iteration of the loop on a received envelope, at clock reading \<open>now\<close>: the new
  store and the log lines written. \<open>None\<close> when the iteration does not finish.
\<close>

fun handle :: "time \<Rightarrow> event \<Rightarrow> store \<Rightarrow> (store \<times> logentry list) option" where
  "handle now Undecodable s = Some (s, [LogSkippingEvent])"
| "handle now (SnapshotPrepare key parent) s =
     (let p = \<lparr>Prep_T = now, Prep_Parent = parent, Prep_Name = []\<rparr>
      in Some (s\<lparr>prepByKey := (prepByKey s)(key \<mapsto> p)\<rparr>, [LogPrep p]))"
| "handle now (SnapshotCommit key name) s =
     (case prepByKey s key of
        None \<Rightarrow> Some (s, [LogCommitWithoutPrep key name])
      | Some p \<Rightarrow>
          (let c = \<lparr>Commit_Dur = Since (Prep_T p) now, Commit_Parent = Prep_Parent p,
                    Commit_Name = name, Commit_Key = key\<rparr>
           in Some (s\<lparr>commitByKey := (commitByKey s)(key \<mapsto> c),
                      commitByName := (commitByName s)(name \<mapsto> c)\<rparr>, [LogCommit c])))"
| "handle now (SnapshotRemove obj) s = Some (s, [LogSnapshotRemove obj])"
| "handle now (ImageDelete obj) s = Some (s, [LogImageDelete obj])"
| "handle now (ContainerCreate ident imageRef) s =
     (case pushContainerMetrics s ident imageRef of
        None \<Rightarrow> None
      | Some l \<Rightarrow> Some (s, [l]))"
| "handle now OtherEvent s = Some (s, [])"

text \<open>The loop over a finite sequence of envelopes, each with the clock reading at which
  it is processed: the final store and, for each envelope, the log lines it produced.\<close>

fun run :: "(time \<times> event) list \<Rightarrow> store \<Rightarrow> (store \<times> logentry list list) option" where
  "run [] s = Some (s, [])"
| "run ((now, e) # es) s =
     (case handle now e s of
        None \<Rightarrow> None
      | Some (s1, out) \<Rightarrow>
          (case run es s1 of
             None \<Rightarrow> None
           | Some (s2, outs) \<Rightarrow> Some (s2, out # outs)))"

subsection \<open>Notions used in the statements\<close>

text \<open>
  The finite parent chain seen by the walk: \<open>chain cbn c cs\<close> holds when the lookups
  starting with the result \<open>c\<close> find exactly the records \<open>cs\<close>, one after the other, and
  the lookup after the last of them fails.
\<close>

fun chain :: "(string \<rightharpoonup> Commit) \<Rightarrow> Commit option \<Rightarrow> Commit list \<Rightarrow> bool" where
  "chain cbn c [] = (c = None)"
| "chain cbn c (d # ds) = (c = Some d \<and> chain cbn (cbn (Commit_Parent d)) ds)"

text \<open>The \<^verbatim>\<open>Layer\<close> that the walk appends for a \<^verbatim>\<open>Commit\<close>.\<close>

definition layer_of :: "Commit \<Rightarrow> Layer" where
  "layer_of c = \<lparr>Layer_ID = Commit_Name c, Layer_Prep = Commit_Dur c\<rparr>"

text \<open>Every record of the two commit maps is stored under its own key and its own name.\<close>

definition index_consistent :: "store \<Rightarrow> bool" where
  "index_consistent s \<longleftrightarrow>
     (\<forall>k c. commitByKey s k = Some c \<longrightarrow> Commit_Key c = k) \<and>
     (\<forall>n c. commitByName s n = Some c \<longrightarrow> Commit_Name c = n)"

subsection \<open>Independent event sequences and their interleavings\<close>

text \<open>The strings of an event: the key it is about (for a container, its identifier),
  the parent it names, the name it commits.\<close>

fun keys_of :: "event \<Rightarrow> string set" where
  "keys_of (SnapshotPrepare key parent) = {key}"
| "keys_of (SnapshotCommit key name) = {key}"
| "keys_of (ContainerCreate ident imageRef) = {ident}"
| "keys_of e = {}"

fun parents_of :: "event \<Rightarrow> string set" where
  "parents_of (SnapshotPrepare key parent) = {parent}"
| "parents_of e = {}"

fun names_of :: "event \<Rightarrow> string set" where
  "names_of (SnapshotCommit key name) = {name}"
| "names_of e = {}"

definition keys_in :: "(time \<times> event) list \<Rightarrow> string set" where
  "keys_in es = (\<Union>te \<in> set es. keys_of (snd te))"

definition parents_in :: "(time \<times> event) list \<Rightarrow> string set" where
  "parents_in es = (\<Union>te \<in> set es. parents_of (snd te))"

definition names_in :: "(time \<times> event) list \<Rightarrow> string set" where
  "names_in es = (\<Union>te \<in> set es. names_of (snd te))"

text \<open>
  Two event sequences are independent when they share no key and neither commits a
  name that the other uses as a parent. (Sequences whose keys, names and parents are
  all different are independent; so are two chains that both start from a base layer
  with the empty parent, when nothing is committed under the empty name.)
\<close>

definition independent :: "(time \<times> event) list \<Rightarrow> (time \<times> event) list \<Rightarrow> bool" where
  "independent es1 es2 \<longleftrightarrow>
     keys_in es1 \<inter> keys_in es2 = {} \<and>
     names_in es1 \<inter> parents_in es2 = {} \<and>
     names_in es2 \<inter> parents_in es1 = {}"









text \<open>The stronger condition of sequences that share no string at all.\<close>

definition disjoint_throughout :: "(time \<times> event) list \<Rightarrow> (time \<times> event) list \<Rightarrow> bool" where
  "disjoint_throughout es1 es2 \<longleftrightarrow>
     (keys_in es1 \<union> names_in es1 \<union> parents_in es1) \<inter>
     (keys_in es2 \<union> names_in es2 \<union> parents_in es2) = {}"

subsection \<open>Example stores\<close>

text \<open>A base layer and three layers on top of it, and the preparation of a container's
  root filesystem on the last one.\<close>

definition chain4_events :: "(time \<times> event) list" where
  "chain4_events =
     [(0, SnapshotPrepare ''k0'' ''''), (10, SnapshotCommit ''k0'' ''base''),
      (10, SnapshotPrepare ''k1'' ''base''), (30, SnapshotCommit ''k1'' ''L1''),
      (30, SnapshotPrepare ''k2'' ''L1''), (60, SnapshotCommit ''k2'' ''L2''),
      (60, SnapshotPrepare ''k3'' ''L2''), (100, SnapshotCommit ''k3'' ''L3''),
      (100, SnapshotPrepare ''c'' ''L3'')]"

definition chain4_store :: store where
  "chain4_store =
     \<lparr>prepByKey = [''k0'' \<mapsto> \<lparr>Prep_T = 0, Prep_Parent = '''', Prep_Name = ''''\<rparr>,
                   ''k1'' \<mapsto> \<lparr>Prep_T = 10, Prep_Parent = ''base'', Prep_Name = ''''\<rparr>,
                   ''k2'' \<mapsto> \<lparr>Prep_T = 30, Prep_Parent = ''L1'', Prep_Name = ''''\<rparr>,
                   ''k3'' \<mapsto> \<lparr>Prep_T = 60, Prep_Parent = ''L2'', Prep_Name = ''''\<rparr>,
                   ''c'' \<mapsto> \<lparr>Prep_T = 100, Prep_Parent = ''L3'', Prep_Name = ''''\<rparr>],
      commitByKey = [''k0'' \<mapsto> \<lparr>Commit_Dur = 10, Commit_Parent = '''', Commit_Name = ''base'', Commit_Key = ''k0''\<rparr>,
                     ''k1'' \<mapsto> \<lparr>Commit_Dur = 20, Commit_Parent = ''base'', Commit_Name = ''L1'', Commit_Key = ''k1''\<rparr>,
                     ''k2'' \<mapsto> \<lparr>Commit_Dur = 30, Commit_Parent = ''L1'', Commit_Name = ''L2'', Commit_Key = ''k2''\<rparr>,
                     ''k3'' \<mapsto> \<lparr>Commit_Dur = 40, Commit_Parent = ''L2'', Commit_Name = ''L3'', Commit_Key = ''k3''\<rparr>],
      commitByName = [''base'' \<mapsto> \<lparr>Commit_Dur = 10, Commit_Parent = '''', Commit_Name = ''base'', Commit_Key = ''k0''\<rparr>,
                      ''L1'' \<mapsto> \<lparr>Commit_Dur = 20, Commit_Parent = ''base'', Commit_Name = ''L1'', Commit_Key = ''k1''\<rparr>,
                      ''L2'' \<mapsto> \<lparr>Commit_Dur = 30, Commit_Parent = ''L1'', Commit_Name = ''L2'', Commit_Key = ''k2''\<rparr>,
                      ''L3'' \<mapsto> \<lparr>Commit_Dur = 40, Commit_Parent = ''L2'', Commit_Name = ''L3'', Commit_Key = ''k3''\<rparr>]\<rparr>"

text \<open>A layer committed under the name of its own parent, and a container on top of it.\<close>

definition cyclic_events :: "(time \<times> event) list" where
  "cyclic_events =
     [(0, SnapshotPrepare ''k'' ''A''), (5, SnapshotCommit ''k'' ''A''),
      (6, SnapshotPrepare ''c'' ''A'')]"

definition cyclic_store :: store where
  "cyclic_store =
     \<lparr>prepByKey = [''k'' \<mapsto> \<lparr>Prep_T = 0, Prep_Parent = ''A'', Prep_Name = ''''\<rparr>,
                   ''c'' \<mapsto> \<lparr>Prep_T = 6, Prep_Parent = ''A'', Prep_Name = ''''\<rparr>],
      commitByKey = [''k'' \<mapsto> \<lparr>Commit_Dur = 5, Commit_Parent = ''A'', Commit_Name = ''A'', Commit_Key = ''k''\<rparr>],
      commitByName = [''A'' \<mapsto> \<lparr>Commit_Dur = 5, Commit_Parent = ''A'', Commit_Name = ''A'', Commit_Key = ''k''\<rparr>]\<rparr>"

text \<open>One preparation, started at 0 and committed at 10.\<close>

definition once_events :: "(time \<times> event) list" where
  "once_events = [(0, SnapshotPrepare ''k'' ''p''), (10, SnapshotCommit ''k'' ''n'')]"

definition once_store :: store where
  "once_store =
     \<lparr>prepByKey = [''k'' \<mapsto> \<lparr>Prep_T = 0, Prep_Parent = ''p'', Prep_Name = ''''\<rparr>],
      commitByKey = [''k'' \<mapsto> \<lparr>Commit_Dur = 10, Commit_Parent = ''p'', Commit_Name = ''n'', Commit_Key = ''k''\<rparr>],
      commitByName = [''n'' \<mapsto> \<lparr>Commit_Dur = 10, Commit_Parent = ''p'', Commit_Name = ''n'', Commit_Key = ''k''\<rparr>]\<rparr>"

text \<open>A layer committed under the empty name, and a container whose preparation has the
  empty parent.\<close>

definition noname_events :: "(time \<times> event) list" where
  "noname_events =
     [(0, SnapshotPrepare ''k'' ''x''), (7, SnapshotCommit ''k'' ''''),
      (8, SnapshotPrepare ''c'' '''')]"

definition noname_store :: store where
  "noname_store =
     \<lparr>prepByKey = [''k'' \<mapsto> \<lparr>Prep_T = 0, Prep_Parent = ''x'', Prep_Name = ''''\<rparr>,
                   ''c'' \<mapsto> \<lparr>Prep_T = 8, Prep_Parent = '''', Prep_Name = ''''\<rparr>],
      commitByKey = [''k'' \<mapsto> \<lparr>Commit_Dur = 7, Commit_Parent = ''x'', Commit_Name = '''', Commit_Key = ''k''\<rparr>],
      commitByName = ['''' \<mapsto> \<lparr>Commit_Dur = 7, Commit_Parent = ''x'', Commit_Name = '''', Commit_Key = ''k''\<rparr>]\<rparr>"



section \<open>Properties of the two loops of pushContainerMetrics\<close>

subsection \<open>The reversal loop reverses\<close>

lemma reverse_loop_nth:
  "0 \<le> i \<Longrightarrow> j < int (length xs) \<Longrightarrow> 
   \<exists>ys. reverse_loop xs i j = Some ys \<and> length ys = length xs \<and>
     (\<forall>k < length xs. ys ! k = (if i \<le> int k \<and> int k \<le> j then xs ! nat (i + j - int k) else xs ! k))"
proof (induction xs i j rule: reverse_loop.induct)
  case (1 xs i j)
  show ?case
  proof (cases "i < j")
    case False
    then have "reverse_loop xs i j = Some xs" by (subst reverse_loop.simps) simp
    moreover have "\<forall>k < length xs. xs ! k = (if i \<le> int k \<and> int k \<le> j then xs ! nat (i + j - int k) else xs ! k)"
    proof (intro allI impI)
      fix k assume "k < length xs"
      have "i \<le> int k \<and> int k \<le> j \<Longrightarrow> nat (i + j - int k) = k" using False by linarith
      then show "xs ! k = (if i \<le> int k \<and> int k \<le> j then xs ! nat (i + j - int k) else xs ! k)"
        by simp
    qed
    ultimately show ?thesis by simp
  next
    case True
    let ?xs = "xs[nat i := xs ! nat j, nat j := xs ! nat i]"
    from True 1(2,3) have eq: "reverse_loop xs i j = reverse_loop ?xs (i + 1) (j - 1)"
      by (subst reverse_loop.simps) simp
    have len: "length ?xs = length xs" by simp
    from True 1(2,3) have pre: "0 \<le> i \<and> j < int (length xs)" by simp
    have "\<exists>ys. reverse_loop ?xs (i+1) (j-1) = Some ys \<and> length ys = length ?xs \<and>
      (\<forall>k < length ?xs. ys ! k = (if i + 1 \<le> int k \<and> int k \<le> j - 1 then ?xs ! nat (i + 1 + (j - 1) - int k) else ?xs ! k))"
      using 1(2,3) by (intro 1(1)[OF True pre]) simp_all
    then obtain ys where ys: "reverse_loop ?xs (i+1) (j-1) = Some ys" "length ys = length xs"
      "\<And>k. k < length xs \<Longrightarrow> ys ! k = (if i + 1 \<le> int k \<and> int k \<le> j - 1 then ?xs ! nat (i + 1 + (j - 1) - int k) else ?xs ! k)"
      unfolding len by blast
    have "\<forall>k < length xs. ys ! k = (if i \<le> int k \<and> int k \<le> j then xs ! nat (i + j - int k) else xs ! k)"
    proof (intro allI impI)
      fix k assume k: "k < length xs"
      have ni: "nat i < length xs" and nj: "nat j < length xs" and nij: "nat i \<noteq> nat j"
        using True 1(2,3) by auto
      consider "int k < i" | "int k = i" | "i < int k \<and> int k < j" | "int k = j" | "j < int k" by linarith
      then show "ys ! k = (if i \<le> int k \<and> int k \<le> j then xs ! nat (i + j - int k) else xs ! k)"
      proof cases
        case 1
        then have "k \<noteq> nat i" "k \<noteq> nat j" using True by auto
        with 1 ys(3)[OF k] True show ?thesis by simp
      next
        case 2
        then have ki: "k = nat i" by simp
        have "nat (i + j - int k) = nat j" using 2 by simp
        with 2 ys(3)[OF k] True ki ni nj nij show ?thesis by simp
      next
        case 3
        then have "k \<noteq> nat i" "k \<noteq> nat j" using 1(2) by auto
        moreover have "nat (i + j - int k) \<noteq> nat i" "nat (i + j - int k) \<noteq> nat j" using 3 1(2) by auto
        moreover have "i + 1 + (j - 1) - int k = i + j - int k" by simp
        ultimately show ?thesis using 3 ys(3)[OF k] by simp
      next
        case 4
        then have kj: "k = nat j" by simp
        have "nat (i + j - int k) = nat i" using 4 by simp
        with 4 ys(3)[OF k] True kj ni nj nij show ?thesis by simp
      next
        case 5
        then have "k \<noteq> nat i" "k \<noteq> nat j" using True 1(2) by auto
        with 5 ys(3)[OF k] True show ?thesis by simp
      qed
    qed
    with ys eq show ?thesis by simp
  qed
qed

lemma reverse_loop_rev: "reverse_loop xs 0 (int (length xs) - 1) = Some (rev xs)"
proof -
  have "\<exists>ys. reverse_loop xs 0 (int (length xs) - 1) = Some ys \<and> length ys = length xs \<and>
     (\<forall>k < length xs. ys ! k = (if 0 \<le> int k \<and> int k \<le> int (length xs) - 1 then xs ! nat (0 + (int (length xs) - 1) - int k) else xs ! k))"
    by (rule reverse_loop_nth) simp_all
  then obtain ys where
    ys: "reverse_loop xs 0 (int (length xs) - 1) = Some ys" "length ys = length xs"
    "\<And>k. k < length xs \<Longrightarrow> ys ! k = (if 0 \<le> int k \<and> int k \<le> int (length xs) - 1 then xs ! nat (0 + (int (length xs) - 1) - int k) else xs ! k)"
    by blast
  have "ys = rev xs"
  proof (rule nth_equalityI)
    show "length ys = length (rev xs)" using ys by simp
  next
    fix k assume "k < length ys"
    then have k: "k < length xs" using ys by simp
    then have "nat (0 + (int (length xs) - 1) - int k) = length xs - Suc k" by linarith
    with ys(3)[OF k] k show "ys ! k = rev xs ! k"
      by (simp add: rev_nth)
  qed
  with ys show ?thesis by simp
qed

subsection \<open>The walk follows the parent chain\<close>

lemma walk_None: "walk cbn None img = Some img"
  by (subst walk.simps) simp

lemma walk_Some:
  "walk cbn (Some co) img =
     walk cbn (cbn (Commit_Parent co))
       (img\<lparr>Image_Layer := Image_Layer img @ [\<lparr>Layer_ID = Commit_Name co, Layer_Prep = Commit_Dur co\<rparr>],
            Image_TotalPrep := Image_TotalPrep img + Commit_Dur co\<rparr>)"
  by (subst walk.simps) simp

lemma walk_chain:
  "chain cbn c cs \<Longrightarrow>
   walk cbn c img = Some (img\<lparr>Image_Layer := Image_Layer img @ map layer_of cs,
                            Image_TotalPrep := Image_TotalPrep img + sum_list (map Commit_Dur cs)\<rparr>)"
proof (induction cs arbitrary: c img)
  case Nil
  then show ?case by (simp add: walk_None)
next
  case (Cons d ds)
  then show ?case by (simp add: walk_Some layer_of_def add.assoc)
qed

lemma walk_returns_chain:
  "walk cbn c img = Some r \<Longrightarrow> \<exists>cs. chain cbn c cs"
proof (induction rule: walk.raw_induct[rotated 1, consumes 1])
  case (1 walk cbn c img r)
  show ?case
  proof (cases c)
    case None
    then show ?thesis by (intro exI[of _ "[]"]) simp
  next
    case (Some co)
    with 1(2) have "\<exists>img'. walk cbn (cbn (Commit_Parent co)) img' = Some r" by auto
    with 1(1) obtain cs where "chain cbn (cbn (Commit_Parent co)) cs" by blast
    with Some show ?thesis by (intro exI[of _ "co # cs"]) simp
  qed
qed

lemma no_chain_walk_None:
  assumes "\<And>cs. \<not> chain cbn c cs"
  shows "walk cbn c img = None"
proof (cases "walk cbn c img")
  case None
  then show ?thesis .
next
  case (Some r)
  from walk_returns_chain[OF this] assms show ?thesis by blast
qed

lemma self_parent_no_chain:
  "cbn (Commit_Parent co) = Some co \<Longrightarrow> \<not> chain cbn (Some co) cs"
  by (induction cs) auto

lemma pushContainerMetrics_chain:
  assumes "prepByKey s ident = Some p"
      and "chain (commitByName s) (commitByName s (Prep_Parent p)) cs"
  shows "pushContainerMetrics s ident imageRef =
           Some (LogImagePulled (instanceID_of imageRef)
                   \<lparr>Image_Name = imageRef, Image_TotalPrep = sum_list (map Commit_Dur cs),
                      Image_Layer = rev (map layer_of cs)\<rparr>
                   ident (Prep_Parent p))"
proof -
  let ?img = "\<lparr>Image_Name = imageRef, Image_TotalPrep = 0, Image_Layer = []\<rparr>"
  have w: "walk (commitByName s) (commitByName s (Prep_Parent p)) ?img =
        Some \<lparr>Image_Name = imageRef, Image_TotalPrep = sum_list (map Commit_Dur cs),
                Image_Layer = map layer_of cs\<rparr>"
    using walk_chain[OF assms(2), of ?img] by simp
  have r: "reverse_loop (map layer_of cs) 0 (int (length (map layer_of cs)) - 1)
             = Some (rev (map layer_of cs))"
    by (rule reverse_loop_rev)
  show ?thesis
    unfolding pushContainerMetrics_def Let_def using assms(1) w r by simp
qed

lemma Since_examples:
  "Since 0 10 = 10" "Since 10 30 = 20" "Since 30 60 = 30" "Since 60 100 = 40"
  "Since 0 5 = 5" "Since 0 7 = 7" "Since 0 25 = 25"
  by (simp_all add: Since_def)

lemma chain4_store_reached: "map_option fst (run chain4_events empty_store) = Some chain4_store"
  by (simp add: chain4_events_def chain4_store_def empty_store_def Since_examples Let_def)

lemma cyclic_store_reached: "map_option fst (run cyclic_events empty_store) = Some cyclic_store"
  by (simp add: cyclic_events_def cyclic_store_def empty_store_def Since_examples Let_def)

lemma once_store_reached: "map_option fst (run once_events empty_store) = Some once_store"
  by (simp add: once_events_def once_store_def empty_store_def Since_examples Let_def)

lemma noname_store_reached: "map_option fst (run noname_events empty_store) = Some noname_store"
  by (simp add: noname_events_def noname_store_def empty_store_def Since_examples Let_def)

subsection \<open>Interleaving: the coupling is kept by every step\<close>













lemma run_Cons_Some:
  "run (te # es) s = Some (s', outs) \<longleftrightarrow>
     (\<exists>sm out outs'. handle (fst te) (snd te) s = Some (sm, out) \<and> run es sm = Some (s', outs') \<and>
        outs = out # outs')"
  by (cases te) (auto split: option.splits)



lemma disjoint_throughout_independent:
  "disjoint_throughout es1 es2 \<Longrightarrow> independent es1 es2"
  unfolding disjoint_throughout_def independent_def by blast

subsection \<open>Footprints, and the consistency of the two commit maps\<close>




lemma handle_preserves_index_consistent:
  assumes "index_consistent s" and "handle now e s = Some (s', out)"
  shows "index_consistent s'"
proof (cases e)
  case (SnapshotPrepare key parent)
  with assms show ?thesis by (auto simp: Let_def index_consistent_def)
next
  case (SnapshotCommit key name)
  with assms show ?thesis
    by (cases "prepByKey s key") (auto simp: Let_def index_consistent_def split: if_splits)
next
  case (ContainerCreate ident imageRef)
  with assms show ?thesis by (auto split: option.splits)
qed (use assms in auto)

lemma run_preserves_index_consistent:
  "index_consistent s \<Longrightarrow> run es s = Some (s', outs) \<Longrightarrow> index_consistent s'"
proof (induction es arbitrary: s outs)
  case Nil
  then show ?case by simp
next
  case (Cons te es)
  from Cons.prems(2) obtain sm out outs' where
    h: "handle (fst te) (snd te) s = Some (sm, out)" and r: "run es sm = Some (s', outs')"
    by (auto simp: run_Cons_Some)
  from handle_preserves_index_consistent[OF Cons.prems(1) h] have "index_consistent sm" .
  from Cons.IH[OF this r] show ?case .
qed

lemma index_consistent_empty: "index_consistent empty_store"
  by (simp add: index_consistent_def empty_store_def)

section \<open>Claims\<close>

text \<open>
  C1. In a store that holds a completed chain base, L1, L2, L3 (the lookup of each
  record's parent finds the previous record, and the lookup of the base's parent finds
  nothing) and a preparation record for the container whose parent is found as L3,
  \<open>pushContainerMetrics\<close> reports the layers base, L1, L2, L3 in this order, base
  first, and a total that is the sum of the four durations.
\<close>

theorem chain_reconstruction_order:
  assumes "prepByKey s ident = Some p"
      and "commitByName s (Prep_Parent p) = Some c3"
      and "commitByName s (Commit_Parent c3) = Some c2"
      and "commitByName s (Commit_Parent c2) = Some c1"
      and "commitByName s (Commit_Parent c1) = Some c0"
      and "commitByName s (Commit_Parent c0) = None"
  shows "pushContainerMetrics s ident imageRef =
           Some (LogImagePulled (instanceID_of imageRef)
                   \<lparr>Image_Name = imageRef,
                      Image_TotalPrep = Commit_Dur c0 + Commit_Dur c1 + Commit_Dur c2 + Commit_Dur c3,
                      Image_Layer =
                        [\<lparr>Layer_ID = Commit_Name c0, Layer_Prep = Commit_Dur c0\<rparr>,
                         \<lparr>Layer_ID = Commit_Name c1, Layer_Prep = Commit_Dur c1\<rparr>,
                         \<lparr>Layer_ID = Commit_Name c2, Layer_Prep = Commit_Dur c2\<rparr>,
                         \<lparr>Layer_ID = Commit_Name c3, Layer_Prep = Commit_Dur c3\<rparr>]\<rparr>
                   ident (Prep_Parent p))"
proof -
  have "chain (commitByName s) (commitByName s (Prep_Parent p)) [c3, c2, c1, c0]"
    using assms(2-6) by simp
  from pushContainerMetrics_chain[OF assms(1) this, of imageRef]
  show ?thesis by (simp add: layer_of_def add.commute add.left_commute)
qed

theorem chain_reconstruction_order_witness:
  "pushContainerMetrics chain4_store ''c'' ''reg/repo/tag'' =
     Some (LogImagePulled ''tag''
             \<lparr>Image_Name = ''reg/repo/tag'', Image_TotalPrep = 100,
                Image_Layer =
                  [\<lparr>Layer_ID = ''base'', Layer_Prep = 10\<rparr>, \<lparr>Layer_ID = ''L1'', Layer_Prep = 20\<rparr>,
                   \<lparr>Layer_ID = ''L2'', Layer_Prep = 30\<rparr>, \<lparr>Layer_ID = ''L3'', Layer_Prep = 40\<rparr>]\<rparr>
             ''c'' ''L3'')"
  using chain_reconstruction_order[of chain4_store "''c''"
      "\<lparr>Prep_T = 100, Prep_Parent = ''L3'', Prep_Name = ''''\<rparr>"
      "\<lparr>Commit_Dur = 40, Commit_Parent = ''L2'', Commit_Name = ''L3'', Commit_Key = ''k3''\<rparr>"
      "\<lparr>Commit_Dur = 30, Commit_Parent = ''L1'', Commit_Name = ''L2'', Commit_Key = ''k2''\<rparr>"
      "\<lparr>Commit_Dur = 20, Commit_Parent = ''base'', Commit_Name = ''L1'', Commit_Key = ''k1''\<rparr>"
      "\<lparr>Commit_Dur = 10, Commit_Parent = '''', Commit_Name = ''base'', Commit_Key = ''k0''\<rparr>"
      "''reg/repo/tag''"]
  by (simp add: chain4_store_def instanceID_of_def)

text \<open>
  C2, as stated, fails: in \<open>cyclic_store\<close> the record found under the name A has the
  parent A, and the walk that starts at A never leaves the loop, so neither does
  the iteration of the event loop that handles the creation of the container.
\<close>

theorem walk_cycle_counterexample:
  "walk (commitByName cyclic_store) (commitByName cyclic_store ''A'')
     \<lparr>Image_Name = ''img'', Image_TotalPrep = 0, Image_Layer = []\<rparr> = None
   \<and> handle 7 (ContainerCreate ''c'' ''img'') cyclic_store = None"
proof -
  let ?co = "\<lparr>Commit_Dur = 5, Commit_Parent = ''A'', Commit_Name = ''A'', Commit_Key = ''k''\<rparr>"
  have look: "commitByName cyclic_store ''A'' = Some ?co"
    by (simp add: cyclic_store_def)
  have "commitByName cyclic_store (Commit_Parent ?co) = Some ?co"
    by (simp add: cyclic_store_def)
  then have "\<And>cs. \<not> chain (commitByName cyclic_store) (Some ?co) cs"
    by (rule self_parent_no_chain)
  then have w: "walk (commitByName cyclic_store) (Some ?co) img = None" for img
    by (rule no_chain_walk_None)
  have p: "prepByKey cyclic_store ''c'' = Some \<lparr>Prep_T = 6, Prep_Parent = ''A'', Prep_Name = ''''\<rparr>"
    by (simp add: cyclic_store_def)
  show ?thesis
    by (simp add: pushContainerMetrics_def p look w)
qed

text \<open>
  C2, amended. The walk terminates exactly when the parent links that it follows end:
  when, after finitely many lookups that succeed, a lookup fails.
\<close>

theorem walk_terminates_iff_chain_ends:
  "(\<exists>r. walk cbn c img = Some r) \<longleftrightarrow> (\<exists>cs. chain cbn c cs)"
  using walk_chain walk_returns_chain by blast

theorem walk_terminates_iff_chain_ends_witness:
  "\<exists>r. walk (commitByName chain4_store) (commitByName chain4_store ''L3'')
          \<lparr>Image_Name = ''img'', Image_TotalPrep = 0, Image_Layer = []\<rparr> = Some r"
proof -
  have "chain (commitByName chain4_store) (commitByName chain4_store ''L3'')
          [\<lparr>Commit_Dur = 40, Commit_Parent = ''L2'', Commit_Name = ''L3'', Commit_Key = ''k3''\<rparr>,
           \<lparr>Commit_Dur = 30, Commit_Parent = ''L1'', Commit_Name = ''L2'', Commit_Key = ''k2''\<rparr>,
           \<lparr>Commit_Dur = 20, Commit_Parent = ''base'', Commit_Name = ''L1'', Commit_Key = ''k1''\<rparr>,
           \<lparr>Commit_Dur = 10, Commit_Parent = '''', Commit_Name = ''base'', Commit_Key = ''k0''\<rparr>]"
    by (simp add: chain4_store_def)
  then show ?thesis
    using walk_terminates_iff_chain_ends by blast
qed

text \<open>
  C3, as stated, fails: \<open>once_store\<close> holds the completed preparation of key k, built by
  the commit at 10. A second commit event for k, at 25, builds another record, with the
  duration 25, and puts it in the place of the first one in both maps.
\<close>

theorem second_commit_counterexample:
  "commitByKey once_store ''k'' =
     Some \<lparr>Commit_Dur = 10, Commit_Parent = ''p'', Commit_Name = ''n'', Commit_Key = ''k''\<rparr>
   \<and> handle 25 (SnapshotCommit ''k'' ''n'') once_store =
     Some (once_store
             \<lparr>commitByKey := [''k'' \<mapsto> \<lparr>Commit_Dur = 25, Commit_Parent = ''p'', Commit_Name = ''n'', Commit_Key = ''k''\<rparr>],
              commitByName := [''n'' \<mapsto> \<lparr>Commit_Dur = 25, Commit_Parent = ''p'', Commit_Name = ''n'', Commit_Key = ''k''\<rparr>]\<rparr>,
           [LogCommit \<lparr>Commit_Dur = 25, Commit_Parent = ''p'', Commit_Name = ''n'', Commit_Key = ''k''\<rparr>])"
  by (simp add: once_store_def Since_examples Let_def)

text \<open>
  C3, amended. Every commit event for a key that has a preparation record builds a new
  record, from that preparation record, the clock and the event, and stores it under the
  key and under the name, whatever was stored there; the other entries stay. The
  preparation record stays too, so a later commit event for the key does the same again:
  after two commit events for the key, the by-key map holds the record of the second.
\<close>

theorem commit_builds_and_overwrites:
  assumes "prepByKey s key = Some p"
  shows "\<exists>s1 s2.
           handle t1 (SnapshotCommit key n1) s =
             Some (s1, [LogCommit \<lparr>Commit_Dur = Since (Prep_T p) t1, Commit_Parent = Prep_Parent p,
                                   Commit_Name = n1, Commit_Key = key\<rparr>]) \<and>
           commitByKey s1 =
             (commitByKey s)(key \<mapsto> \<lparr>Commit_Dur = Since (Prep_T p) t1, Commit_Parent = Prep_Parent p,
                                      Commit_Name = n1, Commit_Key = key\<rparr>) \<and>
           commitByName s1 =
             (commitByName s)(n1 \<mapsto> \<lparr>Commit_Dur = Since (Prep_T p) t1, Commit_Parent = Prep_Parent p,
                                      Commit_Name = n1, Commit_Key = key\<rparr>) \<and>
           prepByKey s1 = prepByKey s \<and>
           handle t2 (SnapshotCommit key n2) s1 =
             Some (s2, [LogCommit \<lparr>Commit_Dur = Since (Prep_T p) t2, Commit_Parent = Prep_Parent p,
                                   Commit_Name = n2, Commit_Key = key\<rparr>]) \<and>
           commitByKey s2 key =
             Some \<lparr>Commit_Dur = Since (Prep_T p) t2, Commit_Parent = Prep_Parent p,
                    Commit_Name = n2, Commit_Key = key\<rparr> \<and>
           commitByName s2 n2 =
             Some \<lparr>Commit_Dur = Since (Prep_T p) t2, Commit_Parent = Prep_Parent p,
                    Commit_Name = n2, Commit_Key = key\<rparr>"
  using assms by (simp add: Let_def)

theorem commit_builds_and_overwrites_witness:
  "\<exists>s1 s2.
     handle 10 (SnapshotCommit ''k'' ''n'') once_store =
       Some (s1, [LogCommit \<lparr>Commit_Dur = 10, Commit_Parent = ''p'', Commit_Name = ''n'', Commit_Key = ''k''\<rparr>]) \<and>
     handle 25 (SnapshotCommit ''k'' ''m'') s1 =
       Some (s2, [LogCommit \<lparr>Commit_Dur = 25, Commit_Parent = ''p'', Commit_Name = ''m'', Commit_Key = ''k''\<rparr>]) \<and>
     commitByKey s2 ''k'' =
       Some \<lparr>Commit_Dur = 25, Commit_Parent = ''p'', Commit_Name = ''m'', Commit_Key = ''k''\<rparr>"
proof -
  have "prepByKey once_store ''k'' = Some \<lparr>Prep_T = 0, Prep_Parent = ''p'', Prep_Name = ''''\<rparr>"
    by (simp add: once_store_def)
  from commit_builds_and_overwrites[OF this, of 10 "''n''" 25 "''m''"]
  show ?thesis by (simp add: Since_examples) blast
qed

text \<open>
  C4. A commit event for a key that has no preparation record changes nothing in the
  store, builds no record, and is not an error: the iteration ends with one log line, at
  debug level.
\<close>

theorem commit_without_prep_is_dropped:
  assumes "prepByKey s key = None"
  shows "handle now (SnapshotCommit key name) s = Some (s, [LogCommitWithoutPrep key name])
         \<and> level_of (LogCommitWithoutPrep key name) = Debug"
  using assms by simp

theorem commit_without_prep_is_dropped_witness:
  "handle 3 (SnapshotCommit ''k9'' ''L9'') chain4_store =
     Some (chain4_store, [LogCommitWithoutPrep ''k9'' ''L9''])
   \<and> level_of (LogCommitWithoutPrep ''k9'' ''L9'') = Debug"
proof -
  have "prepByKey chain4_store ''k9'' = None"
    by (simp add: chain4_store_def)
  from commit_without_prep_is_dropped[OF this, of 3 "''L9''"]
  show ?thesis .
qed

text \<open>
  C5. A commit event never changes the map of preparation records: the iteration ends,
  and the map after it is the map before it, so a matched record is still there.
\<close>

theorem commit_keeps_prepByKey:
  "\<exists>s' out. handle now (SnapshotCommit key name) s = Some (s', out) \<and> prepByKey s' = prepByKey s"
  by (cases "prepByKey s key") (simp_all add: Let_def)

theorem commit_keeps_prepByKey_witness:
  "\<exists>s' out. handle 25 (SnapshotCommit ''k'' ''m'') once_store = Some (s', out) \<and>
     prepByKey s' ''k'' = Some \<lparr>Prep_T = 0, Prep_Parent = ''p'', Prep_Name = ''''\<rparr>"
proof -
  from commit_keeps_prepByKey[of 25 "''k''" "''m''" once_store]
  obtain s' out where "handle 25 (SnapshotCommit ''k'' ''m'') once_store = Some (s', out)"
    and "prepByKey s' = prepByKey once_store" by blast
  moreover have "prepByKey once_store ''k'' = Some \<lparr>Prep_T = 0, Prep_Parent = ''p'', Prep_Name = ''''\<rparr>"
    by (simp add: once_store_def)
  ultimately show ?thesis by simp
qed

text \<open>
  C6. A prepare event for a key stores, under that key, the record with the event's
  parent and the clock reading, whatever the map held for the key before; the other
  keys and the two commit maps are unchanged.
\<close>

theorem prepare_last_writer_wins:
  "\<exists>s'. handle now (SnapshotPrepare key parent) s =
           Some (s', [LogPrep \<lparr>Prep_T = now, Prep_Parent = parent, Prep_Name = ''''\<rparr>]) \<and>
         prepByKey s' = (prepByKey s)(key \<mapsto> \<lparr>Prep_T = now, Prep_Parent = parent, Prep_Name = ''''\<rparr>) \<and>
         prepByKey s' key = Some \<lparr>Prep_T = now, Prep_Parent = parent, Prep_Name = ''''\<rparr> \<and>
         commitByKey s' = commitByKey s \<and> commitByName s' = commitByName s"
  by (simp add: Let_def)

theorem prepare_last_writer_wins_witness:
  "\<exists>s'. handle 25 (SnapshotPrepare ''k'' ''q'') once_store =
           Some (s', [LogPrep \<lparr>Prep_T = 25, Prep_Parent = ''q'', Prep_Name = ''''\<rparr>]) \<and>
         prepByKey once_store ''k'' = Some \<lparr>Prep_T = 0, Prep_Parent = ''p'', Prep_Name = ''''\<rparr> \<and>
         prepByKey s' ''k'' = Some \<lparr>Prep_T = 25, Prep_Parent = ''q'', Prep_Name = ''''\<rparr>"
proof -
  have "prepByKey once_store ''k'' = Some \<lparr>Prep_T = 0, Prep_Parent = ''p'', Prep_Name = ''''\<rparr>"
    by (simp add: once_store_def)
  with prepare_last_writer_wins[of 25 "''k''" "''q''" once_store]
  show ?thesis by blast
qed

text \<open>
  C7. A container-created event for an identifier that has no preparation record
  reports no image: the iteration ends with the store unchanged and one log line, at
  debug level.
\<close>

theorem create_without_prep_reports_nothing:
  assumes "prepByKey s ident = None"
  shows "handle now (ContainerCreate ident imageRef) s = Some (s, [LogImageWithoutPrep imageRef ident])
         \<and> pushContainerMetrics s ident imageRef = Some (LogImageWithoutPrep imageRef ident)
         \<and> level_of (LogImageWithoutPrep imageRef ident) = Debug"
  using assms by (simp add: pushContainerMetrics_def)

theorem create_without_prep_reports_nothing_witness:
  "handle 3 (ContainerCreate ''c9'' ''img'') chain4_store =
     Some (chain4_store, [LogImageWithoutPrep ''img'' ''c9''])
   \<and> pushContainerMetrics chain4_store ''c9'' ''img'' = Some (LogImageWithoutPrep ''img'' ''c9'')
   \<and> level_of (LogImageWithoutPrep ''img'' ''c9'') = Debug"
proof -
  have "prepByKey chain4_store ''c9'' = None"
    by (simp add: chain4_store_def)
  from create_without_prep_reports_nothing[OF this, of 3 "''img''"]
  show ?thesis .
qed

text \<open>
  C8, as stated, fails for the empty parent: the empty string is a name like any other.
  In \<open>noname_store\<close> a layer has been committed under the empty name, the container's
  preparation record has the empty parent, and the reported image has one layer.
\<close>

theorem empty_parent_counterexample:
  "prepByKey noname_store ''c'' = Some \<lparr>Prep_T = 8, Prep_Parent = '''', Prep_Name = ''''\<rparr>
   \<and> handle 9 (ContainerCreate ''c'' ''img'') noname_store =
     Some (noname_store,
           [LogImagePulled ''''
              \<lparr>Image_Name = ''img'', Image_TotalPrep = 7,
                 Image_Layer = [\<lparr>Layer_ID = '''', Layer_Prep = 7\<rparr>]\<rparr>
              ''c'' ''''])"
proof -
  let ?p = "\<lparr>Prep_T = 8, Prep_Parent = '''', Prep_Name = ''''\<rparr>"
  let ?c = "\<lparr>Commit_Dur = 7, Commit_Parent = ''x'', Commit_Name = '''', Commit_Key = ''k''\<rparr>"
  have p: "prepByKey noname_store ''c'' = Some ?p"
    by (simp add: noname_store_def)
  have "chain (commitByName noname_store) (commitByName noname_store (Prep_Parent ?p)) [?c]"
    by (simp add: noname_store_def)
  from pushContainerMetrics_chain[OF p this, of "''img''"] p
  show ?thesis by (simp add: layer_of_def instanceID_of_def)
qed

text \<open>
  C8, amended. When the preparation record of the container exists and the lookup of
  its parent (empty or not) among the completed preparations finds nothing, the image
  is reported with no layer and the total 0, at info level, and the store is unchanged.
\<close>

theorem unresolved_parent_reports_empty_image:
  assumes "prepByKey s ident = Some p"
      and "commitByName s (Prep_Parent p) = None"
  shows "handle now (ContainerCreate ident imageRef) s =
           Some (s, [LogImagePulled (instanceID_of imageRef)
                       \<lparr>Image_Name = imageRef, Image_TotalPrep = 0, Image_Layer = []\<rparr>
                       ident (Prep_Parent p)])
         \<and> level_of (LogImagePulled (instanceID_of imageRef)
                       \<lparr>Image_Name = imageRef, Image_TotalPrep = 0, Image_Layer = []\<rparr>
                       ident (Prep_Parent p)) = Info"
proof -
  have "chain (commitByName s) (commitByName s (Prep_Parent p)) []"
    using assms(2) by simp
  from pushContainerMetrics_chain[OF assms(1) this, of imageRef]
  show ?thesis by simp
qed

theorem unresolved_parent_reports_empty_image_witness:
  "handle 3 (ContainerCreate ''k0'' ''reg/repo/tag'') chain4_store =
     Some (chain4_store,
           [LogImagePulled ''tag''
              \<lparr>Image_Name = ''reg/repo/tag'', Image_TotalPrep = 0, Image_Layer = []\<rparr> ''k0'' ''''])"
proof -
  have p: "prepByKey chain4_store ''k0'' = Some \<lparr>Prep_T = 0, Prep_Parent = '''', Prep_Name = ''''\<rparr>"
    by (simp add: chain4_store_def)
  have n: "commitByName chain4_store (Prep_Parent \<lparr>Prep_T = 0, Prep_Parent = '''', Prep_Name = ''''\<rparr>) = None"
    by (simp add: chain4_store_def)
  from unresolved_parent_reports_empty_image[OF p n, of 3 "''reg/repo/tag''"]
  show ?thesis by (simp add: instanceID_of_def)
qed



text \<open>
  C10. Processing an event keeps the two commit maps consistent: when every record of
  the by-key map is stored under its own key and every record of the by-name map under
  its own name before the event, the same holds after it; and a commit event that finds
  its preparation record puts one and the same record under the key in the by-key map
  and under the name in the by-name map.
\<close>

theorem index_consistency_preserved:
  assumes "index_consistent s" and "handle now e s = Some (s', out)"
  shows "index_consistent s' \<and>
         (\<forall>key name p. e = SnapshotCommit key name \<and> prepByKey s key = Some p \<longrightarrow>
            (\<exists>c. commitByKey s' key = Some c \<and> commitByName s' name = Some c \<and>
                 Commit_Key c = key \<and> Commit_Name c = name))"
proof -
  have "index_consistent s'"
    using assms by (rule handle_preserves_index_consistent)
  moreover have "\<exists>c. commitByKey s' key = Some c \<and> commitByName s' name = Some c \<and>
                      Commit_Key c = key \<and> Commit_Name c = name"
    if "e = SnapshotCommit key name" and "prepByKey s key = Some p" for key name p
    using assms(2) that by (auto simp: Let_def)
  ultimately show ?thesis by blast
qed

theorem index_consistency_preserved_witness:
  "index_consistent once_store \<and>
   (\<exists>s' out. handle 25 (SnapshotCommit ''k'' ''m'') once_store = Some (s', out) \<and>
      index_consistent s' \<and>
      (\<exists>c. commitByKey s' ''k'' = Some c \<and> commitByName s' ''m'' = Some c \<and>
           Commit_Key c = ''k'' \<and> Commit_Name c = ''m''))"
proof -
  have ic: "index_consistent once_store"
    by (simp add: index_consistent_def once_store_def)
  have p: "prepByKey once_store ''k'' = Some \<lparr>Prep_T = 0, Prep_Parent = ''p'', Prep_Name = ''''\<rparr>"
    by (simp add: once_store_def)
  obtain s' out where h: "handle 25 (SnapshotCommit ''k'' ''m'') once_store = Some (s', out)"
    using p by (simp add: Let_def)
  from index_consistency_preserved[OF ic h] p ic h
  show ?thesis by blast
qed

end
